theory Spec2Isabelle
  imports Main "HOL-Library.Word"
begin

unbundle bit_operations_syntax

section \<open>Midea infrared remote: protocol encoder and pulse playback\<close>

text \<open>
  A shallow embedding of the Midea IR driver (\<^verbatim>\<open>midea_ir.c\<close>): the packet encoder
  \<^verbatim>\<open>pack_data\<close>, the frame builder \<^verbatim>\<open>add_complementary_bytes\<close>, the pulse-train
  builder \<^verbatim>\<open>send_ir_data\<close> and the timer interrupt handler
  \<^verbatim>\<open>HAL_TIM_PeriodElapsedCallback\<close>. Machine integers are words, the global
  \<^verbatim>\<open>ir_state\<close> and the two peripherals the driver touches (the IR LED pin and timer 1)
  are one record passed from call to call, and an array access outside the declared
  bounds (undefined behaviour in C) is the error value \<open>OutOfBounds\<close>.
\<close>

subsection \<open>Types and constants\<close>

type_synonym uint8_t = "8 word"

datatype error = OutOfBounds

datatype GPIO_PinState = GPIO_PIN_RESET | GPIO_PIN_SET

text \<open>
  Modelled from the spec: the header \<^verbatim>\<open>midea_ir.h\<close> that declares \<^verbatim>\<open>MideaIR\<close>,
  \<^verbatim>\<open>MideaMode\<close>, \<^verbatim>\<open>TEMP_LOW\<close> and \<^verbatim>\<open>TEMP_HIGH\<close> is not among the sources. The
  state has the four fields the driver reads and writes; temperature and fan level are
  integers, the mode is one of the four protocol modes, whose command codes are the ones
  listed in the protocol comment of the driver (cool 0000, heat 1100, automatic 1000,
  fan 0100), and the supported temperature range is 17 to 30 degrees.
\<close>

datatype MideaMode = MODE_COOL | MODE_HEAT | MODE_AUTO | MODE_FAN

fun mode_code :: "MideaMode \<Rightarrow> 4 word" where
  "mode_code MODE_COOL = 0b0000"
| "mode_code MODE_HEAT = 0b1100"
| "mode_code MODE_AUTO = 0b1000"
| "mode_code MODE_FAN = 0b0100"

record MideaIR =
  temperature :: int
  fan_level :: int
  mode :: MideaMode
  enabled :: bool

definition TEMP_LOW :: int where
  "TEMP_LOW = 17"

definition TEMP_HIGH :: int where
  "TEMP_HIGH = 30"

definition RAW_DATA_PACKET_SIZE :: nat where
  "RAW_DATA_PACKET_SIZE = 6"

text \<open>The bit-fields of \<^verbatim>\<open>DataPacket\<close> are four bits wide: a store keeps the low nibble.\<close>

record DataPacket =
  magic :: uint8_t
  state :: "4 word"
  fan :: "4 word"
  command :: "4 word"
  temp :: "4 word"

definition temperature_table :: "uint8_t list" where
  "temperature_table =
     [0b0000, 0b0001, 0b0011, 0b0010, 0b0110, 0b0111, 0b0101,
      0b0100, 0b1100, 0b1101, 0b1001, 0b1000, 0b1010, 0b1011]"

definition fan_table :: "uint8_t list" where
  "fan_table = [0b1011, 0b1001, 0b0101, 0b0011]"

definition PULSES_CAPACITY :: nat where
  "PULSES_CAPACITY = 29"

definition SUB_PULSES_PER_PULSE :: uint8_t where
  "SUB_PULSES_PER_PULSE = 42"

text \<open>
  \<^verbatim>\<open>IrState\<close>, the driver's global. The array \<^verbatim>\<open>pulses\<close> is a store from index to
  byte; only the indices below \<open>PULSES_CAPACITY\<close> exist, and every access with a
  computed index checks that bound.
\<close>

record IrState =
  pin_number :: uint8_t
  pulses :: "nat \<Rightarrow> uint8_t"
  pulses_size :: uint8_t
  repeat_count :: uint8_t
  current_pulse :: uint8_t
  current_sub_pulse :: uint8_t

text \<open>
  The board: \<^verbatim>\<open>ir_state\<close> together with the level last written to the IR LED pin
  (\<^verbatim>\<open>HAL_GPIO_WritePin\<close>) and whether timer 1 is running with its interrupt enabled
  (\<^verbatim>\<open>HAL_TIM_Base_Start_IT\<close>, \<^verbatim>\<open>HAL_TIM_Base_Stop_IT\<close>).
\<close>

record board = IrState +
  IR_LED :: GPIO_PinState
  htim1_running :: bool

text \<open>Static storage is zero-initialised; the pin is low and the timer stopped at reset.\<close>

definition boot :: board where
  "boot = \<lparr>pin_number = 0, pulses = (\<lambda>_. 0), pulses_size = 0, repeat_count = 0,
           current_pulse = 0, current_sub_pulse = 0,
           IR_LED = GPIO_PIN_RESET, htim1_running = False\<rparr>"

subsection \<open>Errors and array reads\<close>

definition bind_err :: "error + 'a \<Rightarrow> ('a \<Rightarrow> error + 'b) \<Rightarrow> error + 'b" where
  "bind_err m f = (case m of Inl e \<Rightarrow> Inl e | Inr x \<Rightarrow> f x)"

definition array_read :: "'a list \<Rightarrow> int \<Rightarrow> error + 'a" where
  "array_read xs i = (if 0 \<le> i \<and> i < int (length xs) then Inr (xs ! nat i) else Inl OutOfBounds)"

text \<open>A counted loop whose body may fail: the first error ends it.\<close>

fun for_each :: "'a list \<Rightarrow> ('a \<Rightarrow> 's \<Rightarrow> error + 's) \<Rightarrow> 's \<Rightarrow> error + 's" where
  "for_each [] body s = Inr s"
| "for_each (i # is) body s = bind_err (body i s) (for_each is body)"

subsection \<open>Packet encoder\<close>

definition pack_data :: "MideaIR \<Rightarrow> error + DataPacket" where
  "pack_data ir =
     (if enabled ir then
        bind_err (if mode ir = MODE_AUTO then Inr 0b0001
                  else array_read fan_table (fan_level ir))
          (\<lambda>f. bind_err
             (if mode ir = MODE_FAN then Inr 0b1110
              else if TEMP_LOW \<le> temperature ir \<and> temperature ir \<le> TEMP_HIGH
                   then array_read temperature_table (temperature ir - TEMP_LOW)
                   else Inr 0b0100)
             (\<lambda>t. Inr \<lparr>magic = 0xB2, state = 0b1111, fan = ucast f,
                        command = mode_code (mode ir), temp = ucast t\<rparr>))
      else Inr \<lparr>magic = 0xB2, state = 0b1011, fan = 0b0111, command = 0b0000, temp = 0b1110\<rparr>)"

text \<open>
  The three bytes of a \<^verbatim>\<open>DataPacket\<close> in memory, as \<^verbatim>\<open>midea_ir_send\<close> reads them
  through a byte pointer: \<open>[magic] [ffff ssss] [tttt cccc]\<close>, the layout the protocol
  comment of the driver gives (the first declared bit-field in the low nibble).
\<close>

definition packet_bytes :: "DataPacket \<Rightarrow> uint8_t list" where
  "packet_bytes p =
     [magic p,
      push_bit 4 (ucast (fan p)) OR ucast (state p),
      push_bit 4 (ucast (temp p)) OR ucast (command p)]"

subsection \<open>Driver initialisation\<close>

definition midea_ir_init :: "MideaIR \<Rightarrow> board \<Rightarrow> MideaIR \<times> board" where
  "midea_ir_init ir s =
     (ir\<lparr>temperature := 24, enabled := False, mode := MODE_AUTO, fan_level := 0\<rparr>,
      s\<lparr>repeat_count := 0, IR_LED := GPIO_PIN_RESET\<rparr>)"

subsection \<open>Pulse-train builder\<close>

definition init_buff :: "board \<Rightarrow> board" where
  "init_buff s =
     s\<lparr>current_pulse := 0, current_sub_pulse := 0,
       pulses := fold (\<lambda>i p. p(i := 0)) [0..<PULSES_CAPACITY] (pulses s)\<rparr>"

definition add_start :: "board \<Rightarrow> board" where
  "add_start s =
     s\<lparr>pulses := (pulses s)(0 := 0b11111111, 1 := 0b00000000), current_pulse := 8 * 2\<rparr>"

definition add_bit :: "bool \<Rightarrow> board \<Rightarrow> error + board" where
  "add_bit b s =
     (let idx = unat (current_pulse s) div 8 in
      if idx < PULSES_CAPACITY then
        let s1 = s\<lparr>pulses := (pulses s)
                     (idx := pulses s idx OR push_bit (unat (current_pulse s) mod 8) 1)\<rparr>;
            s2 = s1\<lparr>current_pulse := current_pulse s1 + 1\<rparr>
        in Inr (if b then s2\<lparr>current_pulse := current_pulse s2 + 3\<rparr>
                else s2\<lparr>current_pulse := current_pulse s2 + 1\<rparr>)
      else Inl OutOfBounds)"

definition add_stop :: "board \<Rightarrow> error + board" where
  "add_stop s =
     bind_err (add_bit True s) (\<lambda>s1. Inr (s1\<lparr>current_pulse := current_pulse s1 + 8\<rparr>))"

definition start :: "uint8_t \<Rightarrow> board \<Rightarrow> board" where
  "start repeat s =
     s\<lparr>pulses_size := current_pulse s, current_pulse := 0, current_sub_pulse := 0,
       repeat_count := repeat, htim1_running := True\<rparr>"

text \<open>
  The inner loop of \<^verbatim>\<open>send_ir_data\<close>: \<open>n\<close> more iterations on the shifted byte \<open>v\<close>,
  each sending bit 7 and shifting left.
\<close>

fun send_byte :: "nat \<Rightarrow> uint8_t \<Rightarrow> board \<Rightarrow> error + board" where
  "send_byte 0 v s = Inr s"
| "send_byte (Suc n) v s =
     bind_err (add_bit (v AND push_bit 7 1 \<noteq> 0) s) (send_byte n (push_bit 1 v))"

definition send_ir_data :: "uint8_t list \<Rightarrow> uint8_t \<Rightarrow> board \<Rightarrow> error + board" where
  "send_ir_data data repeat s =
     bind_err
       (for_each [0..<RAW_DATA_PACKET_SIZE]
          (\<lambda>b s'. bind_err (array_read data (int b)) (\<lambda>v. send_byte 8 v s'))
          (add_start (init_buff s)))
       (\<lambda>s1. bind_err (add_stop s1) (\<lambda>s2. Inr (start repeat s2)))"

subsection \<open>Frame builder\<close>

text \<open>
  Both pointers advance through the loop: the source is consumed from its head, and the
  destination receives its bytes in order. Reading past the end of the source is an error.
\<close>

fun complementary_loop :: "nat \<Rightarrow> uint8_t list \<Rightarrow> uint8_t list \<Rightarrow> error + uint8_t list" where
  "complementary_loop 0 src dst = Inr dst"
| "complementary_loop (Suc n) [] dst = Inl OutOfBounds"
| "complementary_loop (Suc n) (x # src) dst = complementary_loop n src (dst @ [x, NOT x])"

definition add_complementary_bytes :: "uint8_t list \<Rightarrow> error + uint8_t list" where
  "add_complementary_bytes src = complementary_loop 3 src []"

subsection \<open>Public operations\<close>

definition midea_ir_send :: "MideaIR \<Rightarrow> board \<Rightarrow> error + board" where
  "midea_ir_send ir s =
     bind_err (pack_data ir)
       (\<lambda>packet. bind_err (add_complementary_bytes (packet_bytes packet))
          (\<lambda>data. send_ir_data data 2 s))"

definition midea_ir_move_deflector :: "MideaIR \<Rightarrow> board \<Rightarrow> error + board" where
  "midea_ir_move_deflector ir s =
     bind_err (add_complementary_bytes [0xB2, 0x0F, 0xE0])
       (\<lambda>raw_data. send_ir_data raw_data 1 s)"

subsection \<open>Timer interrupt\<close>

definition HAL_TIM_PeriodElapsedCallback :: "board \<Rightarrow> error + board" where
  "HAL_TIM_PeriodElapsedCallback s =
     (let idx = unat (current_pulse s) div 8 in
      if idx < PULSES_CAPACITY then
        let pulse_val = (pulses s idx AND push_bit (unat (current_pulse s) mod 8) 1 \<noteq> 0) in
        if current_sub_pulse s < SUB_PULSES_PER_PULSE then
          let s1 = (if current_sub_pulse s mod 2 = 0 \<and> pulse_val
                    then s\<lparr>IR_LED := GPIO_PIN_RESET\<rparr>
                    else s\<lparr>IR_LED := GPIO_PIN_SET\<rparr>)
          in Inr (s1\<lparr>current_sub_pulse := current_sub_pulse s1 + 1\<rparr>)
        else
          let s1 = s\<lparr>current_sub_pulse := 0\<rparr>;
              s2 = s1\<lparr>current_pulse := current_pulse s1 + 1\<rparr>
          in if current_pulse s2 \<ge> pulses_size s2 then
               let s3 = s2\<lparr>repeat_count := repeat_count s2 - 1\<rparr>
               in if repeat_count s3 \<noteq> 0
                  then Inr (s3\<lparr>current_pulse := 0, current_sub_pulse := 0\<rparr>)
                  else Inr (s3\<lparr>htim1_running := False, IR_LED := GPIO_PIN_RESET\<rparr>)
             else Inr s2
      else Inl OutOfBounds)"

text \<open>
  One period of timer 1: the interrupt fires, and the handler runs, only while the
  timer is running.
\<close>

definition tick :: "board \<Rightarrow> error + board" where
  "tick s = (if htim1_running s then HAL_TIM_PeriodElapsedCallback s else Inr s)"

fun run :: "nat \<Rightarrow> board \<Rightarrow> error + board" where
  "run 0 s = Inr s"
| "run (Suc n) s = bind_err (tick s) (run n)"


subsection \<open>The pulse train of a frame\<close>

text \<open>Pulse \<open>k\<close> of the buffer, read the way the interrupt handler reads it.\<close>

definition pulse_at :: "board \<Rightarrow> nat \<Rightarrow> bool" where
  "pulse_at s k = (pulses s (k div 8) AND push_bit (k mod 8) 1 \<noteq> 0)"

definition pulse_train :: "board \<Rightarrow> bool list" where
  "pulse_train s = map (pulse_at s) [0..<unat (pulses_size s)]"

text \<open>
  The pulse train the protocol prescribes, written independently of the builder: a mark
  is \<open>True\<close>, a space is \<open>False\<close>. The bits of a byte are taken from bit 7 down to bit 0.
\<close>

definition bits_msb :: "uint8_t \<Rightarrow> bool list" where
  "bits_msb v = map (bit v) (rev [0..<8])"

definition frame_bits :: "uint8_t list \<Rightarrow> bool list" where
  "frame_bits data = concat (map bits_msb data)"

definition bit_pulses :: "bool \<Rightarrow> bool list" where
  "bit_pulses b = True # replicate (if b then 3 else 1) False"

definition start_pulses :: "bool list" where
  "start_pulses = replicate 8 True @ replicate 8 False"

definition data_pulses :: "uint8_t list \<Rightarrow> bool list" where
  "data_pulses data = concat (map bit_pulses (frame_bits data))"

text \<open>The stop marker as \<^verbatim>\<open>add_stop\<close> builds it: the pulses of a 1 bit, then 8 more spaces.\<close>

definition stop_pulses :: "bool list" where
  "stop_pulses = bit_pulses True @ replicate 8 False"

definition bit_slot_count :: "bool \<Rightarrow> nat" where
  "bit_slot_count b = (if b then 4 else 2)"

text \<open>
  The slot count of the specification's formula: 16 start slots, 2 or 4 slots for each
  data bit and 9 stop slots.
\<close>

definition spec_slot_count :: "uint8_t list \<Rightarrow> nat" where
  "spec_slot_count data = 16 + sum_list (map bit_slot_count (frame_bits data)) + 9"

text \<open>
  The state of the builder after the pulses \<open>xs\<close> have been added: the cursor stands
  behind them and every later pulse of the buffer is still a space.
\<close>

definition built :: "board \<Rightarrow> bool list \<Rightarrow> bool" where
  "built s xs \<longleftrightarrow>
     unat (current_pulse s) = length xs \<and>
     (\<forall>k < 8 * PULSES_CAPACITY. pulse_at s k = (k < length xs \<and> xs ! k))"

text \<open>The bits the inner loop of \<^verbatim>\<open>send_ir_data\<close> sends in \<open>n\<close> iterations on \<open>v\<close>.\<close>

primrec shifted_bits :: "nat \<Rightarrow> uint8_t \<Rightarrow> bool list" where
  "shifted_bits 0 v = []"
| "shifted_bits (Suc n) v = bit v 7 # shifted_bits n (push_bit 1 v)"

subsection \<open>A decoder for the pulse train\<close>

text \<open>
  The receiver's side, from the specification's round-trip property (the driver has no
  decoder): skip the 16 pulses of the start condition; then, 48 times, expect a mark and
  count the spaces up to the next mark, one space for a 0 bit and three for a 1 bit;
  assemble the bits into bytes, most significant bit first.
\<close>

fun spec_decode_bits :: "nat \<Rightarrow> bool list \<Rightarrow> bool list option" where
  "spec_decode_bits 0 xs = Some []"
| "spec_decode_bits (Suc n) [] = None"
| "spec_decode_bits (Suc n) (x # xs) =
     (if x then
        (let spaces = length (takeWhile Not xs); rest = dropWhile Not xs
         in if spaces = 1 then map_option ((#) False) (spec_decode_bits n rest)
            else if spaces = 3 then map_option ((#) True) (spec_decode_bits n rest)
            else None)
      else None)"

definition spec_byte_of_bits :: "bool list \<Rightarrow> uint8_t" where
  "spec_byte_of_bits bs = foldl (\<lambda>w b. push_bit 1 w OR (if b then 1 else 0)) 0 bs"

definition spec_bytes_of_bits :: "nat \<Rightarrow> bool list \<Rightarrow> uint8_t list" where
  "spec_bytes_of_bits n bs = map (\<lambda>j. spec_byte_of_bits (take 8 (drop (8 * j) bs))) [0..<n]"

definition spec_decode :: "bool list \<Rightarrow> uint8_t list option" where
  "spec_decode xs = map_option (spec_bytes_of_bits 6) (spec_decode_bits 48 (drop 16 xs))"

subsection \<open>Playback\<close>

text \<open>
  The level the handler writes to the pin at sub-pulse \<open>t\<close> of a slot: \<open>GPIO_PIN_RESET\<close>
  on the even sub-pulses of a mark, \<open>GPIO_PIN_SET\<close> otherwise.
\<close>

definition window_level :: "bool \<Rightarrow> nat \<Rightarrow> GPIO_PinState" where
  "window_level mark t = (if even t \<and> mark then GPIO_PIN_RESET else GPIO_PIN_SET)"

text \<open>
  A transmission armed with the buffer of \<open>s0\<close> is under way in \<open>s\<close>: the timer runs,
  the cursor is at sub-pulse \<open>t\<close> of slot \<open>k\<close>, and \<open>r\<close> passes remain.
\<close>

definition playing :: "board \<Rightarrow> nat \<Rightarrow> nat \<Rightarrow> nat \<Rightarrow> board \<Rightarrow> bool" where
  "playing s0 k t r s \<longleftrightarrow>
     pulses s = pulses s0 \<and> pulses_size s = pulses_size s0 \<and>
     unat (current_pulse s) = k \<and> unat (current_sub_pulse s) = t \<and>
     unat (repeat_count s) = r \<and> htim1_running s"

text \<open>
  The fan table is read inside its bounds: always when the state is disabled or the
  mode is automatic (the table is not read then), otherwise for the fan levels 0 to 3.
\<close>

definition fan_level_in_table :: "MideaIR \<Rightarrow> bool" where
  "fan_level_in_table ir \<longleftrightarrow>
     enabled ir = False \<or> mode ir = MODE_AUTO \<or> (0 \<le> fan_level ir \<and> fan_level ir < 4)"

section \<open>Error propagation\<close>

lemma bind_err_Inr [simp]: "bind_err (Inr x) f = f x"
  by (simp add: bind_err_def)

lemma bind_err_Inl [simp]: "bind_err (Inl e) f = Inl e"
  by (simp add: bind_err_def)

section \<open>Frame builder\<close>

lemma complementary_frame:
  "add_complementary_bytes [a, b, c] = Inr [a, NOT a, b, NOT b, c, NOT c]"
  by (simp add: add_complementary_bytes_def numeral_3_eq_3)

lemma xor_not_self: "(x::uint8_t) XOR NOT x = 0xFF"
  by (simp add: bit.xor_compl_right)

lemma length_3_cases: "length xs = 3 \<Longrightarrow> \<exists>a b c. xs = [a, b, c]"
  by (cases xs; cases "tl xs"; cases "tl (tl xs)") auto

lemma add_complementary_bytes_frame:
  assumes "length src = 3"
  shows "\<exists>frame. add_complementary_bytes src = Inr frame \<and> length frame = 6"
proof -
  from assms obtain a b c where "src = [a, b, c]"
    using length_3_cases by blast
  then show ?thesis
    by (simp add: complementary_frame)
qed

text \<open>
  C4. For every three-byte packet the frame builder returns a six-byte frame that holds
  each byte followed by its bitwise complement, in the order of the packet; so the two
  bytes at the indices \<open>i\<close> and \<open>i + 1\<close>, for \<open>i\<close> in \<open>{0, 2, 4}\<close>, have exclusive-or \<open>0xFF\<close>.
\<close>

theorem add_complementary_bytes_interleaves:
  assumes "length src = 3"
  shows "\<exists>frame. add_complementary_bytes src = Inr frame \<and> length frame = 6 \<and>
           (\<forall>i<3. frame ! (2 * i) = src ! i \<and> frame ! (2 * i + 1) = NOT (src ! i)) \<and>
           (\<forall>i\<in>{0, 2, 4}. frame ! i XOR frame ! (i + 1) = 0xFF)"
proof -
  from assms obtain a b c where src: "src = [a, b, c]"
    using length_3_cases by blast
  have "\<forall>i<3. [a, NOT a, b, NOT b, c, NOT c] ! (2 * i) = [a, b, c] ! i \<and>
              [a, NOT a, b, NOT b, c, NOT c] ! (2 * i + 1) = NOT ([a, b, c] ! i)"
    by (auto simp: less_Suc_eq numeral_3_eq_3)
  then show ?thesis
    unfolding src complementary_frame by (simp add: xor_not_self)
qed

theorem add_complementary_bytes_interleaves_witness:
  "length [0xB2, 0x5F, 0x70 :: uint8_t] = 3 \<and>
   (\<exists>frame. add_complementary_bytes [0xB2, 0x5F, 0x70] = Inr frame \<and> length frame = 6 \<and>
      (\<forall>i<3. frame ! (2 * i) = [0xB2, 0x5F, 0x70] ! i \<and>
              frame ! (2 * i + 1) = NOT ([0xB2, 0x5F, 0x70] ! i)) \<and>
      (\<forall>i\<in>{0, 2, 4}. frame ! i XOR frame ! (i + 1) = 0xFF))"
proof -
  have len: "length [0xB2, 0x5F, 0x70 :: uint8_t] = 3"
    by simp
  from add_complementary_bytes_interleaves [OF len] len show ?thesis
    by blast
qed

section \<open>Packet encoder\<close>

lemma pack_data_off:
  "enabled ir = False \<Longrightarrow>
   pack_data ir =
     Inr \<lparr>magic = 0xB2, state = 0b1011, fan = 0b0111, command = 0b0000, temp = 0b1110\<rparr>"
  by (simp add: pack_data_def)

text \<open>
  C8. Two states that are both disabled are encoded to the same packet, the fixed off
  packet (magic \<open>0xB2\<close>, fan \<open>0111\<close>, state \<open>1011\<close>, command \<open>0000\<close>, temp \<open>1110\<close>): mode,
  fan level and temperature have no influence.
\<close>

theorem pack_data_disabled_fixed:
  assumes "enabled a = False" and "enabled b = False"
  shows "pack_data a = pack_data b \<and>
         pack_data a =
           Inr \<lparr>magic = 0xB2, state = 0b1011, fan = 0b0111, command = 0b0000, temp = 0b1110\<rparr>"
  using assms by (simp add: pack_data_off)

theorem pack_data_disabled_fixed_witness:
  "enabled \<lparr>temperature = 17, fan_level = 1, mode = MODE_HEAT, enabled = False\<rparr> = False \<and>
   enabled \<lparr>temperature = 99, fan_level = 7, mode = MODE_FAN, enabled = False\<rparr> = False \<and>
   pack_data \<lparr>temperature = 17, fan_level = 1, mode = MODE_HEAT, enabled = False\<rparr> =
     pack_data \<lparr>temperature = 99, fan_level = 7, mode = MODE_FAN, enabled = False\<rparr> \<and>
   pack_data \<lparr>temperature = 17, fan_level = 1, mode = MODE_HEAT, enabled = False\<rparr> =
     Inr \<lparr>magic = 0xB2, state = 0b1011, fan = 0b0111, command = 0b0000, temp = 0b1110\<rparr>"
proof -
  have a: "enabled \<lparr>temperature = 17, fan_level = 1, mode = MODE_HEAT, enabled = False\<rparr> = False"
    by simp
  have b: "enabled \<lparr>temperature = 99, fan_level = 7, mode = MODE_FAN, enabled = False\<rparr> = False"
    by simp
  from pack_data_disabled_fixed [OF a b] a b show ?thesis
    by blast
qed

section \<open>Driver initialisation\<close>

text \<open>
  What \<^verbatim>\<open>midea_ir_init\<close> stores: repeat count 0, the level \<open>GPIO_PIN_RESET\<close> on the pin,
  and the defaults in the caller's state.
\<close>

lemma midea_ir_init_defaults:
  "repeat_count (snd (midea_ir_init ir s)) = 0 \<and>
   IR_LED (snd (midea_ir_init ir s)) = GPIO_PIN_RESET \<and>
   temperature (fst (midea_ir_init ir s)) = 24 \<and>
   enabled (fst (midea_ir_init ir s)) = False \<and>
   mode (fst (midea_ir_init ir s)) = MODE_AUTO \<and>
   fan_level (fst (midea_ir_init ir s)) = 0"
  by (simp add: midea_ir_init_def)

section \<open>Pulse-train builder\<close>

lemma pulse_at_bit: "pulse_at s k = bit (pulses s (k div 8)) (k mod 8)"
  by (simp add: pulse_at_def bit_iff_and_push_bit_not_eq_0)

lemma pulse_at_add_bit:
  assumes "add_bit b s = Inr s'"
  shows "pulse_at s' k = (pulse_at s k \<or> k = unat (current_pulse s))"
proof -
  let ?c = "unat (current_pulse s)"
  have p: "pulses s' = (pulses s)(?c div 8 := pulses s (?c div 8) OR push_bit (?c mod 8) 1)"
    using assms by (auto simp: add_bit_def Let_def split: if_splits)
  have "k = ?c \<longleftrightarrow> k div 8 = ?c div 8 \<and> k mod 8 = ?c mod 8"
    by (metis div_mult_mod_eq)
  then show ?thesis
    by (auto simp: p pulse_at_bit bit_simps)
qed

lemma add_bit_cursor:
  assumes "unat (current_pulse s) + 4 \<le> 8 * PULSES_CAPACITY"
  shows "\<exists>s'. add_bit b s = Inr s' \<and>
           unat (current_pulse s') = unat (current_pulse s) + (if b then 4 else 2)"
proof -
  let ?c = "current_pulse s"
  from assms have c: "unat ?c + 4 \<le> 232"
    by (simp add: PULSES_CAPACITY_def)
  then have idx: "unat ?c div 8 < PULSES_CAPACITY"
    by (simp add: PULSES_CAPACITY_def)
  from c have "unat (?c + 1 + 3) = unat ?c + 4" "unat (?c + 1 + 1) = unat ?c + 2"
    by (simp_all add: unat_word_ariths)
  with idx show ?thesis
    by (simp add: add_bit_def Let_def)
qed


lemma add_bit_built:
  assumes "built s xs" and "length xs + 4 \<le> 8 * PULSES_CAPACITY"
  shows "\<exists>s'. add_bit b s = Inr s' \<and> built s' (xs @ bit_pulses b)"
proof -
  from assms have cur: "unat (current_pulse s) = length xs"
    and old: "\<And>k. k < 8 * PULSES_CAPACITY \<Longrightarrow> pulse_at s k = (k < length xs \<and> xs ! k)"
    by (simp_all add: built_def)
  from add_bit_cursor [of s b] assms(2) cur obtain s' where
    s': "add_bit b s = Inr s'"
    and cur': "unat (current_pulse s') = length xs + (if b then 4 else 2)"
    by auto
  have "pulse_at s' k = (k < length (xs @ bit_pulses b) \<and> (xs @ bit_pulses b) ! k)"
    if "k < 8 * PULSES_CAPACITY" for k
    using pulse_at_add_bit [OF s', of k] old [OF that] cur
    by (auto simp: bit_pulses_def nth_append nth_Cons' )
  with s' cur' show ?thesis
    by (auto simp: built_def bit_pulses_def)
qed

lemma bit_shift_left_1: "bit (push_bit 1 (v::uint8_t)) (Suc m) = (m < 7 \<and> bit v m)"
  by (auto simp add: bit_push_bit_iff possible_bit_word simp del: push_bit_of_1 push_bit_Suc)

lemma shifted_bits_eq:
  "n \<le> 8 \<Longrightarrow> shifted_bits n v = map (\<lambda>i. bit v (7 - i)) [0..<n]"
proof (induction n arbitrary: v)
  case 0
  then show ?case by simp
next
  case (Suc n)
  then have IH: "shifted_bits n (push_bit 1 v) = map (\<lambda>i. bit (push_bit 1 v) (7 - i)) [0..<n]"
    by simp
  have "bit (push_bit 1 v) (7 - i) = bit v (7 - Suc i)" if "i < n" for i
  proof -
    from that Suc.prems have "7 - i = Suc (6 - i)" "7 - Suc i = 6 - i" "6 - i < 7"
      by simp_all
    then show ?thesis
      by (simp only: bit_shift_left_1 simp_thms)
  qed
  then have "map (\<lambda>i. bit (push_bit 1 v) (7 - i)) [0..<n] = map (\<lambda>i. bit v (7 - Suc i)) [0..<n]"
    by (intro map_cong refl) simp
  also have "\<dots> = map (\<lambda>i. bit v (7 - i)) (map Suc [0..<n])"
    by (simp only: map_map comp_def)
  finally have "shifted_bits (Suc n) v = bit v 7 # map (\<lambda>i. bit v (7 - i)) (map Suc [0..<n])"
    using IH by (simp only: shifted_bits.simps)
  moreover have "[0..<Suc n] = 0 # map Suc [0..<n]"
    by (simp add: map_Suc_upt upt_conv_Cons del: upt_Suc)
  ultimately show ?case
    by (simp del: upt_Suc shifted_bits.simps)
qed

lemma shifted_bits_8: "shifted_bits 8 v = bits_msb v"
proof -
  have "rev [0..<8] = map (\<lambda>i. 7 - i) [0..<8]"
    by (simp add: upt_rec)
  then show ?thesis
    by (simp add: shifted_bits_eq bits_msb_def comp_def)
qed

lemma top_bit_test: "((v::uint8_t) AND 128 \<noteq> 0) = bit v 7"
proof -
  have "(128::uint8_t) = push_bit 7 1"
    by simp
  then show ?thesis
    by (simp only: bit_iff_and_push_bit_not_eq_0)
qed

lemma length_bit_pulses_le: "length (bit_pulses b) \<le> 4"
  by (simp add: bit_pulses_def)

lemma length_concat_bit_pulses_le: "length (concat (map bit_pulses bs)) \<le> 4 * length bs"
  by (induction bs) (auto simp: bit_pulses_def)

lemma send_byte_built:
  assumes "built s xs" and "length xs + 4 * n \<le> 8 * PULSES_CAPACITY"
  shows "\<exists>s'. send_byte n v s = Inr s' \<and>
           built s' (xs @ concat (map bit_pulses (shifted_bits n v)))"
  using assms
proof (induction n arbitrary: s xs v)
  case 0
  then show ?case by simp
next
  case (Suc n)
  from Suc.prems have "length xs + 4 \<le> 8 * PULSES_CAPACITY"
    by simp
  from add_bit_built [OF Suc.prems(1) this, of "bit v 7"] obtain s1 where
    s1: "add_bit (bit v 7) s = Inr s1" and b1: "built s1 (xs @ bit_pulses (bit v 7))"
    by blast
  have "length (xs @ bit_pulses (bit v 7)) + 4 * n \<le> 8 * PULSES_CAPACITY"
    using Suc.prems(2) length_bit_pulses_le [of "bit v 7"] by simp
  from Suc.IH [OF b1 this, of "push_bit 1 v"] s1 show ?case
    by (simp add: top_bit_test)
qed


lemma length_bits_msb: "length (bits_msb v) = 8"
  by (simp add: bits_msb_def)

lemma length_byte_pulses_le: "length (concat (map bit_pulses (bits_msb v))) \<le> 32"
  using length_concat_bit_pulses_le [of "bits_msb v"] by (simp add: length_bits_msb)

lemma send_bytes_built:
  assumes "built s xs" and "length xs + 32 * length js \<le> 8 * PULSES_CAPACITY"
    and "\<forall>j\<in>set js. j < length data"
  shows "\<exists>s'. for_each js (\<lambda>b s'. bind_err (array_read data (int b)) (\<lambda>v. send_byte 8 v s')) s
                = Inr s' \<and>
           built s' (xs @ data_pulses (map ((!) data) js))"
  using assms
proof (induction js arbitrary: s xs)
  case Nil
  then show ?case by (simp add: data_pulses_def frame_bits_def)
next
  case (Cons j js)
  let ?v = "data ! j"
  let ?ys = "xs @ concat (map bit_pulses (bits_msb ?v))"
  from Cons.prems have rd: "array_read data (int j) = Inr ?v"
    by (simp add: array_read_def)
  from Cons.prems have "length xs + 4 * 8 \<le> 8 * PULSES_CAPACITY"
    by simp
  from send_byte_built [OF Cons.prems(1) this, of ?v] obtain s1 where
    s1: "send_byte 8 ?v s = Inr s1" and b1: "built s1 ?ys"
    by (auto simp: shifted_bits_8)
  have "length ?ys + 32 * length js \<le> 8 * PULSES_CAPACITY"
    using Cons.prems(2) length_byte_pulses_le [of ?v] by simp
  moreover have "\<forall>j\<in>set js. j < length data"
    using Cons.prems(3) by simp
  ultimately obtain s2 where
    "for_each js (\<lambda>b s'. bind_err (array_read data (int b)) (\<lambda>v. send_byte 8 v s')) s1 = Inr s2"
    "built s2 (?ys @ data_pulses (map ((!) data) js))"
    using Cons.IH [OF b1] by blast
  with rd s1 show ?case
    by (simp add: data_pulses_def frame_bits_def)
qed

lemma init_buff_pulses: "i < PULSES_CAPACITY \<Longrightarrow> pulses (init_buff s) i = 0"
proof -
  have "fold (\<lambda>i p. p(i := 0)) [0..<n] p i = (if i < n then 0 else p i)" for n and p :: "nat \<Rightarrow> uint8_t"
    by (induction n) auto
  then show "i < PULSES_CAPACITY \<Longrightarrow> pulses (init_buff s) i = 0"
    by (simp add: init_buff_def)
qed

lemma bit_255: "bit (255::uint8_t) k = (k < 8)"
proof -
  have "(255::uint8_t) = - 1"
    by simp
  then show ?thesis
    by (simp only: bit_minus_1_iff possible_bit_word) simp
qed

lemma built_spaces:
  assumes "built s xs" and "pulses s' = pulses s"
    and "unat (current_pulse s') = length xs + n"
  shows "built s' (xs @ replicate n False)"
proof -
  have "pulse_at s' k = pulse_at s k" for k
    by (simp add: pulse_at_def assms(2))
  with assms(1,3) show ?thesis
    by (auto simp: built_def nth_append)
qed

lemma start_built: "built (add_start (init_buff s)) start_pulses"
proof -
  let ?s = "add_start (init_buff s)"
  have "pulse_at ?s k = (k < length start_pulses \<and> start_pulses ! k)"
    if "k < 8 * PULSES_CAPACITY" for k
  proof -
    consider "k < 8" | "8 \<le> k" "k < 16" | "16 \<le> k"
      by linarith
    then show ?thesis
    proof cases
      case 1
      then have "pulse_at ?s k = bit (255::uint8_t) k"
        by (simp add: pulse_at_bit add_start_def)
      also have "\<dots> = True"
        using 1 by (simp only: bit_255)
      finally show ?thesis
        using 1 by (simp add: start_pulses_def nth_append)
    next
      case 2
      then have "k div 8 = 1"
        by simp
      then have "pulse_at ?s k = False"
        by (simp add: pulse_at_bit add_start_def)
      then show ?thesis
        using 2 by (simp add: start_pulses_def nth_append)
    next
      case 3
      then have "k div 8 \<noteq> 0" "k div 8 \<noteq> 1"
        by simp_all
      moreover from that have "pulses (init_buff s) (k div 8) = 0"
        by (intro init_buff_pulses) simp
      ultimately have "pulse_at ?s k = False"
        by (simp add: pulse_at_bit add_start_def)
      then show ?thesis
        using 3 by (simp add: start_pulses_def)
    qed
  qed
  then show ?thesis
    by (simp add: built_def add_start_def start_pulses_def)
qed

lemma add_stop_built:
  assumes "built s xs" and "length xs + 12 \<le> 8 * PULSES_CAPACITY"
  shows "\<exists>s'. add_stop s = Inr s' \<and> built s' (xs @ stop_pulses)"
proof -
  from assms have "length xs + 4 \<le> 8 * PULSES_CAPACITY"
    by simp
  from add_bit_built [OF assms(1) this, of True] obtain s1 where
    s1: "add_bit True s = Inr s1" and b1: "built s1 (xs @ bit_pulses True)"
    by blast
  let ?s = "s1\<lparr>current_pulse := current_pulse s1 + 8\<rparr>"
  from b1 have cur: "unat (current_pulse s1) = length xs + 4"
    by (simp add: built_def bit_pulses_def)
  with assms(2) have "unat (current_pulse s1 + 8) = length xs + 12"
    by (simp add: unat_word_ariths PULSES_CAPACITY_def)
  then have "unat (current_pulse ?s) = length (xs @ bit_pulses True) + 8"
    by (simp add: bit_pulses_def)
  from built_spaces [OF b1 _ this] have "built ?s (xs @ stop_pulses)"
    by (simp add: stop_pulses_def)
  with s1 show ?thesis
    by (simp add: add_stop_def)
qed


lemma length_data_pulses:
  "length (data_pulses data) = sum_list (map bit_slot_count (frame_bits data))"
proof -
  have "length (concat (map bit_pulses bs)) = sum_list (map bit_slot_count bs)" for bs
    by (induction bs) (simp_all add: bit_pulses_def bit_slot_count_def)
  then show ?thesis
    by (simp add: data_pulses_def)
qed

lemma length_frame_bits: "length (frame_bits data) = 8 * length data"
  by (induction data) (simp_all add: frame_bits_def length_bits_msb)

lemma length_data_pulses_le: "length (data_pulses data) \<le> 32 * length data"
  using length_concat_bit_pulses_le [of "frame_bits data"]
  by (simp add: data_pulses_def length_frame_bits)

lemma send_ir_data_built:
  assumes "length data = 6"
  shows "\<exists>s2. send_ir_data data r s = Inr (start r s2) \<and>
           built s2 (start_pulses @ data_pulses data @ stop_pulses)"
proof -
  have len: "length start_pulses = 16"
    by (simp add: start_pulses_def)
  have idx: "\<forall>j\<in>set [0..<RAW_DATA_PACKET_SIZE]. j < length data"
    by (simp add: assms RAW_DATA_PACKET_SIZE_def)
  have "length start_pulses + 32 * length [0..<RAW_DATA_PACKET_SIZE] \<le> 8 * PULSES_CAPACITY"
    by (simp add: len RAW_DATA_PACKET_SIZE_def PULSES_CAPACITY_def)
  from send_bytes_built [OF start_built this idx, of s] obtain s1 where
    s1: "for_each [0..<RAW_DATA_PACKET_SIZE]
           (\<lambda>b s'. bind_err (array_read data (int b)) (\<lambda>v. send_byte 8 v s'))
           (add_start (init_buff s)) = Inr s1"
    and b1: "built s1 (start_pulses @ data_pulses (map ((!) data) [0..<RAW_DATA_PACKET_SIZE]))"
    by blast
  have "map ((!) data) [0..<RAW_DATA_PACKET_SIZE] = data"
    using map_nth [of data] by (simp only: assms RAW_DATA_PACKET_SIZE_def)
  with b1 have b1': "built s1 (start_pulses @ data_pulses data)"
    by simp
  have "length (start_pulses @ data_pulses data) + 12 \<le> 8 * PULSES_CAPACITY"
    using length_data_pulses_le [of data] by (simp add: len assms PULSES_CAPACITY_def)
  from add_stop_built [OF b1' this] obtain s2 where
    "add_stop s1 = Inr s2" "built s2 ((start_pulses @ data_pulses data) @ stop_pulses)"
    by blast
  with s1 have "send_ir_data data r s = Inr (start r s2) \<and>
      built s2 (start_pulses @ data_pulses data @ stop_pulses)"
    by (simp add: send_ir_data_def)
  then show ?thesis ..
qed

lemma pulse_train_start:
  assumes "built s xs" and "length xs \<le> 8 * PULSES_CAPACITY"
  shows "pulse_train (start r s) = xs"
proof -
  from assms have "unat (pulses_size (start r s)) = length xs"
    by (simp add: start_def built_def)
  moreover have "pulse_at (start r s) k = xs ! k" if "k < length xs" for k
  proof -
    have "pulse_at (start r s) k = pulse_at s k"
      by (simp add: pulse_at_def start_def)
    with assms that show ?thesis
      by (simp add: built_def)
  qed
  ultimately show ?thesis
    by (intro nth_equalityI) (simp_all add: pulse_train_def)
qed

lemma send_ir_data_pulse_train:
  assumes "length data = 6"
  shows "\<exists>s'. send_ir_data data r s = Inr s' \<and>
           pulse_train s' = start_pulses @ data_pulses data @ stop_pulses \<and>
           unat (pulses_size s') = length (start_pulses @ data_pulses data @ stop_pulses) \<and>
           repeat_count s' = r \<and> current_pulse s' = 0 \<and> current_sub_pulse s' = 0 \<and>
           htim1_running s' = True"
proof -
  from send_ir_data_built [OF assms] obtain s2 where
    s2: "send_ir_data data r s = Inr (start r s2)"
    and b2: "built s2 (start_pulses @ data_pulses data @ stop_pulses)"
    by blast
  have "length (start_pulses @ data_pulses data @ stop_pulses) \<le> 8 * PULSES_CAPACITY"
    using length_data_pulses_le [of data]
    by (simp add: assms start_pulses_def stop_pulses_def bit_pulses_def PULSES_CAPACITY_def)
  from pulse_train_start [OF b2 this] have "pulse_train (start r s2) = start_pulses @ data_pulses data @ stop_pulses" .
  moreover have "unat (pulses_size (start r s2)) = length (start_pulses @ data_pulses data @ stop_pulses)"
    using b2 by (simp add: start_def built_def)
  ultimately show ?thesis
    using s2 by (simp add: start_def)
qed

text \<open>
  The slot count the builder records for a six-byte frame: the start condition, the
  data bits, and the twelve slots that \<^verbatim>\<open>add_stop\<close> adds.
\<close>

lemma send_ir_data_slot_count:
  assumes "length data = 6"
  shows "\<exists>s'. send_ir_data data r s = Inr s' \<and>
           unat (pulses_size s') = 16 + sum_list (map bit_slot_count (frame_bits data)) + 12"
proof -
  from send_ir_data_pulse_train [OF assms, of r s] obtain s' where
    "send_ir_data data r s = Inr s'"
    "unat (pulses_size s') = length (start_pulses @ data_pulses data @ stop_pulses)"
    by blast
  then show ?thesis
    by (auto simp: length_data_pulses start_pulses_def stop_pulses_def bit_pulses_def)
qed

text \<open>
  C5. For every six-byte frame the pulse train begins with the start condition, 8 marks
  followed by 8 spaces whatever the data, and continues with the pulses of the 48 data
  bits, the bytes in order and each byte from bit 7 down to bit 0, every bit as one mark
  followed by one space for a 0 and by three spaces for a 1. The stop marker follows.
\<close>

theorem send_ir_data_start_and_bits:
  assumes "length data = 6"
  shows "\<exists>s'. send_ir_data data r s = Inr s' \<and>
           take 16 (pulse_train s') = replicate 8 True @ replicate 8 False \<and>
           pulse_train s' =
             start_pulses @
             concat (map (\<lambda>b. True # replicate (if b then 3 else 1) False)
                       (concat (map (\<lambda>v. map (bit v) [7, 6, 5, 4, 3, 2, 1, 0]) data))) @
             stop_pulses"
proof -
  have "bits_msb = (\<lambda>v. map (bit v) [7, 6, 5, 4, 3, 2, 1, 0])"
    by (rule ext) (simp add: bits_msb_def upt_rec eval_nat_numeral)
  moreover have "bit_pulses = (\<lambda>b. True # replicate (if b then 3 else 1) False)"
    by (rule ext) (simp add: bit_pulses_def)
  ultimately have "data_pulses data =
      concat (map (\<lambda>b. True # replicate (if b then 3 else 1) False)
                (concat (map (\<lambda>v. map (bit v) [7, 6, 5, 4, 3, 2, 1, 0]) data)))"
    by (simp only: data_pulses_def frame_bits_def)
  moreover from send_ir_data_pulse_train [OF assms, of r s] obtain s' where
    "send_ir_data data r s = Inr s'"
    "pulse_train s' = start_pulses @ data_pulses data @ stop_pulses"
    by blast
  ultimately show ?thesis
    by (auto simp: start_pulses_def)
qed

theorem send_ir_data_start_and_bits_witness:
  "length [0xB2, 0x4D, 0x0F, 0xF0, 0xE0, 0x1F :: uint8_t] = 6 \<and>
   (\<exists>s'. send_ir_data [0xB2, 0x4D, 0x0F, 0xF0, 0xE0, 0x1F] 1 boot = Inr s' \<and>
      take 16 (pulse_train s') = replicate 8 True @ replicate 8 False \<and>
      pulse_train s' =
        start_pulses @
        concat (map (\<lambda>b. True # replicate (if b then 3 else 1) False)
                  (concat (map (\<lambda>v. map (bit v) [7, 6, 5, 4, 3, 2, 1, 0])
                             [0xB2, 0x4D, 0x0F, 0xF0, 0xE0, 0x1F :: uint8_t]))) @
        stop_pulses)"
proof -
  have len: "length [0xB2, 0x4D, 0x0F, 0xF0, 0xE0, 0x1F :: uint8_t] = 6"
    by simp
  from send_ir_data_start_and_bits [OF len, of 1 boot] len show ?thesis
    by blast
qed

section \<open>Decoding the pulse train\<close>

lemma takeWhile_spaces: "takeWhile Not (replicate k False @ True # r) = replicate k False"
  by (induction k) simp_all

lemma dropWhile_spaces: "dropWhile Not (replicate k False @ True # r) = True # r"
  by (induction k) simp_all

lemma decode_bits_step:
  "spec_decode_bits (Suc n) (bit_pulses b @ True # r) =
     map_option ((#) b) (spec_decode_bits n (True # r))"
  by (cases b) (simp_all add: bit_pulses_def takeWhile_spaces dropWhile_spaces)

lemma decode_bits_data:
  "spec_decode_bits (length bs) (concat (map bit_pulses bs) @ True # rest) = Some bs"
proof (induction bs)
  case Nil
  then show ?case by simp
next
  case (Cons b bs)
  obtain r where tail: "concat (map bit_pulses bs) @ True # rest = True # r"
    by (cases bs) (auto simp: bit_pulses_def)
  have "spec_decode_bits (length (b # bs)) (concat (map bit_pulses (b # bs)) @ True # rest)
      = spec_decode_bits (Suc (length bs)) (bit_pulses b @ True # r)"
    using tail by simp
  also have "\<dots> = map_option ((#) b) (spec_decode_bits (length bs) (True # r))"
    by (rule decode_bits_step)
  also have "\<dots> = Some (b # bs)"
    using Cons.IH tail by simp
  finally show ?case .
qed

lemma bit_times_2: "bit ((w::uint8_t) * 2) n = (0 < n \<and> n < 8 \<and> bit w (n - 1))"
proof -
  have "w * 2 = push_bit 1 w"
    by simp
  then show ?thesis
    by (simp only: bit_push_bit_iff possible_bit_word) auto
qed

lemma bit_shift_or:
  "bit (push_bit 1 (w::uint8_t) OR (if b then 1 else 0)) n =
     (if n = 0 then b else n < 8 \<and> bit w (n - 1))"
  by (simp add: bit_or_iff bit_times_2 bit_1_iff)

lemma bit_byte_of_bits:
  "n < 8 \<Longrightarrow>
   bit (foldl (\<lambda>w b. push_bit 1 w OR (if b then 1 else 0)) (w0::uint8_t) bs) n =
     (if n < length bs then rev bs ! n else bit w0 (n - length bs))"
proof (induction bs arbitrary: w0)
  case Nil
  then show ?case by simp
next
  case (Cons b bs)
  show ?case
    using Cons.prems
    by (simp only: foldl_Cons Cons.IH [OF Cons.prems] bit_shift_or)
       (auto simp: nth_append Suc_diff_le less_Suc_eq)
qed

lemma byte_of_bits_msb: "spec_byte_of_bits (bits_msb v) = v"
proof (rule bit_word_eqI)
  fix n
  assume "n < LENGTH(8)"
  then have n: "n < 8"
    by simp
  then have "rev (bits_msb v) ! n = bit v n"
    by (simp add: bits_msb_def rev_map del: upt_Suc)
  moreover have "length (bits_msb v) = 8"
    by (simp add: bits_msb_def)
  ultimately show "bit (spec_byte_of_bits (bits_msb v)) n = bit v n"
    unfolding spec_byte_of_bits_def using n by (simp only: bit_byte_of_bits if_True)
qed

lemma frame_bits_chunk:
  "j < length data \<Longrightarrow> take 8 (drop (8 * j) (frame_bits data)) = bits_msb (data ! j)"
proof (induction data arbitrary: j)
  case Nil
  then show ?case by simp
next
  case (Cons v data)
  show ?case
  proof (cases j)
    case 0
    then show ?thesis
      by (simp add: frame_bits_def length_bits_msb)
  next
    case (Suc i)
    with Cons.prems have "i < length data"
      by simp
    from Cons.IH [OF this] Suc show ?thesis
      by (simp add: frame_bits_def length_bits_msb)
  qed
qed

lemma bytes_of_frame_bits: "spec_bytes_of_bits (length data) (frame_bits data) = data"
proof -
  have "map (\<lambda>j. spec_byte_of_bits (take 8 (drop (8 * j) (frame_bits data)))) [0..<length data]
      = map ((!) data) [0..<length data]"
    by (intro map_cong refl) (simp add: frame_bits_chunk byte_of_bits_msb)
  then show ?thesis
    by (simp only: spec_bytes_of_bits_def map_nth)
qed

lemma decode_pulses:
  assumes "length data = 6"
  shows "spec_decode (start_pulses @ data_pulses data @ stop_pulses) = Some data"
proof -
  have "drop 16 (start_pulses @ data_pulses data @ stop_pulses) = data_pulses data @ stop_pulses"
    by (simp add: start_pulses_def)
  moreover have "stop_pulses = True # replicate 11 False"
    by (simp add: stop_pulses_def bit_pulses_def replicate_add [symmetric])
  moreover have "length (frame_bits data) = 48"
    by (simp add: length_frame_bits assms)
  ultimately have "spec_decode_bits 48 (drop 16 (start_pulses @ data_pulses data @ stop_pulses))
      = Some (frame_bits data)"
    using decode_bits_data [of "frame_bits data" "replicate 11 False"]
    by (simp add: data_pulses_def)
  then show ?thesis
    using bytes_of_frame_bits [of data] by (simp add: spec_decode_def assms)
qed

text \<open>
  C7. For every six-byte frame, decoding the pulse train the builder leaves in the buffer
  (skip the start condition, then 48 times a mark and its spaces, one space for a 0 and
  three for a 1) gives back the six bytes of the frame.
\<close>

theorem decode_send_ir_data:
  assumes "length data = 6"
  shows "\<exists>s'. send_ir_data data r s = Inr s' \<and> spec_decode (pulse_train s') = Some data"
proof -
  from send_ir_data_pulse_train [OF assms, of r s] obtain s' where
    "send_ir_data data r s = Inr s'"
    "pulse_train s' = start_pulses @ data_pulses data @ stop_pulses"
    by blast
  with decode_pulses [OF assms] show ?thesis
    by simp
qed

theorem decode_send_ir_data_witness:
  "length [0xB2, 0x4D, 0x5F, 0xA0, 0x70, 0x8F :: uint8_t] = 6 \<and>
   (\<exists>s'. send_ir_data [0xB2, 0x4D, 0x5F, 0xA0, 0x70, 0x8F] 2 boot = Inr s' \<and>
      spec_decode (pulse_train s') = Some [0xB2, 0x4D, 0x5F, 0xA0, 0x70, 0x8F])"
proof -
  have len: "length [0xB2, 0x4D, 0x5F, 0xA0, 0x70, 0x8F :: uint8_t] = 6"
    by simp
  from decode_send_ir_data [OF len, of 2 boot] len show ?thesis
    by blast
qed

section \<open>Playback by the timer interrupt\<close>

lemma run_add: "run (m + n) s = bind_err (run m s) (run n)"
  by (induction m arbitrary: s) (auto simp: bind_err_def split: sum.splits)

lemma run_Suc_right: "run (Suc n) s = bind_err (run n s) tick"
  using run_add [of n 1 s] by (simp add: bind_err_def split: sum.splits)

lemma sub_pulse_even: "((w::uint8_t) mod 2 = 0) = even (unat w)"
proof -
  have "(w mod 2 = 0) = (unat (w mod 2) = 0)"
    by (simp add: unat_eq_zero)
  also have "\<dots> = (unat w mod 2 = 0)"
    by (simp add: unat_mod)
  finally show ?thesis
    by (simp add: even_iff_mod_2_eq_zero)
qed

lemma tick_window:
  assumes "playing s0 k t r s" and "k < 8 * PULSES_CAPACITY" and "t < 42"
  shows "\<exists>s'. tick s = Inr s' \<and> playing s0 k (Suc t) r s' \<and>
           IR_LED s' = window_level (pulse_at s0 k) t"
proof -
  from assms(1) have run: "htim1_running s" and cp: "unat (current_pulse s) = k"
    and sp: "unat (current_sub_pulse s) = t" and p: "pulses s = pulses s0"
    by (simp_all add: playing_def)
  from assms(2) cp have idx: "unat (current_pulse s) div 8 < PULSES_CAPACITY"
    by simp
  from sp assms(3) have lt: "current_sub_pulse s < SUB_PULSES_PER_PULSE"
    by (simp add: word_less_nat_alt SUB_PULSES_PER_PULSE_def)
  from sp assms(3) have sp': "unat (current_sub_pulse s + 1) = Suc t"
    by (simp add: unat_word_ariths)
  have val: "(pulses s (unat (current_pulse s) div 8)
                AND push_bit (unat (current_pulse s) mod 8) 1 \<noteq> 0) = pulse_at s0 k"
    by (simp only: pulse_at_def cp p)
  let ?s1 = "if current_sub_pulse s mod 2 = 0 \<and> pulse_at s0 k
             then s\<lparr>IR_LED := GPIO_PIN_RESET\<rparr> else s\<lparr>IR_LED := GPIO_PIN_SET\<rparr>"
  let ?s' = "?s1\<lparr>current_sub_pulse := current_sub_pulse ?s1 + 1\<rparr>"
  have "tick s = Inr ?s'"
    using run idx lt by (simp only: tick_def HAL_TIM_PeriodElapsedCallback_def Let_def val if_True)
  moreover have "playing s0 k (Suc t) r ?s'"
    using assms(1) sp' by (simp add: playing_def)
  moreover have "IR_LED ?s' = window_level (pulse_at s0 k) t"
    by (simp add: window_level_def sub_pulse_even sp)
  ultimately show ?thesis
    by blast
qed

lemma tick_slot_end:
  assumes "playing s0 k 42 r s" and "k < 8 * PULSES_CAPACITY"
  shows "tick s =
     (let s2 = s\<lparr>current_sub_pulse := 0, current_pulse := current_pulse s + 1\<rparr> in
      if unat (pulses_size s0) \<le> Suc k then
        let s3 = s2\<lparr>repeat_count := repeat_count s2 - 1\<rparr>
        in if repeat_count s3 \<noteq> 0
           then Inr (s3\<lparr>current_pulse := 0, current_sub_pulse := 0\<rparr>)
           else Inr (s3\<lparr>htim1_running := False, IR_LED := GPIO_PIN_RESET\<rparr>)
      else Inr s2)"
proof -
  from assms(1) have run: "htim1_running s" and cp: "unat (current_pulse s) = k"
    and sp: "unat (current_sub_pulse s) = 42" and sz: "pulses_size s = pulses_size s0"
    by (simp_all add: playing_def)
  from assms(2) cp have idx: "unat (current_pulse s) div 8 < PULSES_CAPACITY"
    by simp
  from sp have ge: "\<not> current_sub_pulse s < SUB_PULSES_PER_PULSE"
    by (simp add: word_less_nat_alt SUB_PULSES_PER_PULSE_def)
  from cp assms(2) have "unat (current_pulse s + 1) = Suc k"
    by (simp add: unat_word_ariths PULSES_CAPACITY_def)
  then have cmp: "(pulses_size s0 \<le> current_pulse s + 1) = (unat (pulses_size s0) \<le> Suc k)"
    by (simp add: word_le_nat_alt)
  show ?thesis
    using run idx ge
    by (simp add: tick_def HAL_TIM_PeriodElapsedCallback_def Let_def sz cmp)
qed


lemma Suc_div_mod_inside:
  assumes "Suc (n mod m) < m"
  shows "Suc n mod m = Suc (n mod m)" and "Suc n div m = n div m"
  using assms by (simp_all add: mod_Suc div_Suc)

lemma Suc_div_mod_wrap:
  assumes "0 < m" and "m \<le> Suc (n mod m)"
  shows "Suc n mod m = 0" and "Suc n div m = Suc (n div m)" and "Suc n = m * Suc (n div m)"
proof -
  from assms have eq: "Suc (n mod m) = m"
    using mod_less_divisor [of m n] by linarith
  then show "Suc n mod m = 0" and "Suc n div m = Suc (n div m)"
    by (simp_all add: mod_Suc div_Suc)
  have "n = m * (n div m) + n mod m"
    by simp
  then have "Suc n = m * (n div m) + Suc (n mod m)"
    by linarith
  then show "Suc n = m * Suc (n div m)"
    by (simp only: eq mult_Suc_right add.commute)
qed

lemma run_playing:
  assumes arm: "playing s 0 0 N s"
    and S: "S = unat (pulses_size s)" "0 < S" "S \<le> 8 * PULSES_CAPACITY"
    and n: "n < 43 * S * N"
  shows "\<exists>s'. run n s = Inr s' \<and>
           playing s ((n div 43) mod S) (n mod 43) (N - (n div 43) div S) s' \<and>
           (n mod 43 \<noteq> 0 \<longrightarrow>
              IR_LED s' = window_level (pulse_at s ((n div 43) mod S)) (n mod 43 - 1))"
  using n
proof (induction n)
  case 0
  with arm show ?case by simp
next
  case (Suc n)
  define q where "q = n div 43"
  define k where "k = q mod S"
  define t where "t = n mod 43"
  define r where "r = N - q div S"
  from Suc obtain s1 where s1: "run n s = Inr s1" and pl: "playing s k t r s1"
    unfolding q_def k_def t_def r_def by auto
  have k: "k < 8 * PULSES_CAPACITY"
    using S(2,3) mod_less_divisor [of S q] unfolding k_def by linarith
  have t: "t < 43"
    unfolding t_def by simp
  show ?case
  proof (cases "t < 42")
    case True
    then have "Suc (n mod 43) < 43"
      by (simp add: t_def)
    from Suc_div_mod_inside [OF this]
    have a: "Suc n mod 43 = Suc t" "Suc n div 43 = q"
      by (simp_all add: t_def q_def)
    from tick_window [OF pl k True] obtain s' where
      "tick s1 = Inr s'" "playing s k (Suc t) r s'" "IR_LED s' = window_level (pulse_at s k) t"
      by blast
    with s1 have "run (Suc n) s = Inr s' \<and> playing s k (Suc t) r s' \<and>
        IR_LED s' = window_level (pulse_at s k) (Suc t - 1)"
      by (simp add: run_Suc_right del: run.simps)
    then show ?thesis
      unfolding a k_def r_def by blast
  next
    case False
    with t have t42: "t = 42"
      by simp
    then have "43 \<le> Suc (n mod 43)"
      by (simp add: t_def)
    have a: "Suc n mod 43 = 0" "Suc n div 43 = Suc q" "Suc n = 43 * Suc q"
      unfolding q_def by (rule Suc_div_mod_wrap [OF _ \<open>43 \<le> Suc (n mod 43)\<close>], simp)+
    from a(3) Suc.prems have q: "Suc q < S * N"
      by simp
    let ?s2 = "s1\<lparr>current_sub_pulse := 0, current_pulse := current_pulse s1 + 1\<rparr>"
    from pl k have cp2: "unat (current_pulse s1 + 1) = Suc k"
      by (simp add: playing_def unat_word_ariths PULSES_CAPACITY_def)
    show ?thesis
    proof (cases "S \<le> Suc k")
      case True
      from True have "S \<le> Suc (q mod S)"
        by (simp add: k_def)
      note b = Suc_div_mod_wrap [OF S(2) this]
      from b(3) q have "S * Suc (q div S) < S * N"
        by (simp only:)
      then have "Suc (q div S) < N"
        by (simp only: mult_less_cancel1)
      then have r2: "2 \<le> r" "N - Suc (q div S) = r - 1"
        by (simp_all add: r_def)
      from pl have rc: "unat (repeat_count s1) = r"
        by (simp add: playing_def)
      with r2 have rc1: "unat (repeat_count s1 - 1) = r - 1"
        by (simp add: unat_sub word_le_nat_alt)
      with r2 have nz: "repeat_count s1 - 1 \<noteq> 0"
        by (auto simp: unat_eq_zero [symmetric] simp del: unat_eq_zero)
      let ?s' = "?s2\<lparr>repeat_count := repeat_count s1 - 1, current_pulse := 0,
                    current_sub_pulse := 0\<rparr>"
      have "tick s1 = Inr ?s'"
        using tick_slot_end [OF pl [unfolded t42] k] True nz
        by (simp add: S(1) Let_def)
      moreover have "playing s 0 0 (r - 1) ?s'"
        using pl rc1 by (simp add: playing_def)
      ultimately have "run (Suc n) s = Inr ?s' \<and> playing s 0 0 (r - 1) ?s'"
        using s1 by (simp add: run_Suc_right del: run.simps)
      then show ?thesis
        unfolding a(1,2) b(1,2) r2(2) by blast
    next
      case False
      then have "Suc (q mod S) < S"
        by (simp add: k_def)
      from Suc_div_mod_inside [OF this]
      have b: "Suc q mod S = Suc k" "Suc q div S = q div S"
        by (simp_all add: k_def)
      have "tick s1 = Inr ?s2"
        using tick_slot_end [OF pl [unfolded t42] k] False
        by (simp add: S(1) Let_def)
      moreover have "playing s (Suc k) 0 r ?s2"
        using pl cp2 by (simp add: playing_def)
      ultimately have "run (Suc n) s = Inr ?s2 \<and> playing s (Suc k) 0 r ?s2"
        using s1 by (simp add: run_Suc_right del: run.simps)
      then show ?thesis
        unfolding a(1,2) b(1,2) r_def by blast
    qed
  qed
qed


lemma last_before_multiple:
  assumes "0 < (m::nat)" and "0 < (c::nat)"
  shows "(m * c - 1) div m = c - 1" and "(m * c - 1) mod m = m - 1"
proof -
  from assms(2) obtain c' where c: "c = Suc c'"
    by (cases c) auto
  from assms(1) have eq: "m * c - 1 = (m - 1) + c' * m"
    by (simp add: c mult.commute)
  have "((m - 1) + c' * m) div m = c' + (m - 1) div m"
    using assms(1) by (intro div_mult_self1) simp
  moreover have "((m - 1) + c' * m) mod m = (m - 1) mod m"
    by (rule mod_mult_self1)
  moreover from assms(1) have "(m - 1) div m = 0" "(m - 1) mod m = m - 1"
    by simp_all
  ultimately have "(m * c - 1) div m = c'" "(m * c - 1) mod m = m - 1"
    by (simp_all only: eq add_0_right)
  moreover have "c - 1 = c'"
    by (simp add: c)
  ultimately show "(m * c - 1) div m = c - 1" "(m * c - 1) mod m = m - 1"
    by (simp_all only:)
qed

lemma run_idle: "htim1_running s = False \<Longrightarrow> run n s = Inr s"
  by (induction n) (simp_all add: tick_def)

lemma run_complete:
  assumes arm: "playing s 0 0 N s"
    and S: "S = unat (pulses_size s)" "0 < S" "S \<le> 8 * PULSES_CAPACITY"
    and N: "0 < N"
  shows "\<exists>s'. run (43 * S * N) s = Inr s' \<and> repeat_count s' = 0 \<and>
           htim1_running s' = False \<and> IR_LED s' = GPIO_PIN_RESET \<and>
           pulses s' = pulses s \<and> pulses_size s' = pulses_size s"
proof -
  define n where "n = 43 * (S * N) - 1"
  from S(2) N have SN: "0 < S * N"
    by simp
  then have Suc_n: "Suc n = 43 * S * N"
    by (simp add: n_def)
  have "n div 43 = S * N - 1" "n mod 43 = 42"
    unfolding n_def using last_before_multiple [of 43 "S * N"] SN by simp_all
  moreover have "(S * N - 1) div S = N - 1" "(S * N - 1) mod S = S - 1"
    using last_before_multiple [OF S(2) N] by simp_all
  moreover have "n < 43 * S * N"
    using Suc_n by linarith
  ultimately obtain s1 where s1: "run n s = Inr s1" and pl: "playing s (S - 1) 42 (N - (N - 1)) s1"
    using run_playing [OF arm S, of n] by auto
  from N have "N - (N - 1) = 1"
    by simp
  with pl have "unat (repeat_count s1) = unat (1::uint8_t)"
    by (simp add: playing_def)
  then have rc: "repeat_count s1 - 1 = 0"
    by (simp only: word_unat_eq_iff [symmetric]) simp
  have k: "S - 1 < 8 * PULSES_CAPACITY" "S \<le> Suc (S - 1)"
    using S(2,3) by simp_all
  let ?s' = "s1\<lparr>current_sub_pulse := 0, current_pulse := current_pulse s1 + 1,
                repeat_count := repeat_count s1 - 1, htim1_running := False,
                IR_LED := GPIO_PIN_RESET\<rparr>"
  have "tick s1 = Inr ?s'"
    using tick_slot_end [OF pl k(1)] k(2) rc by (simp add: S(1) Let_def)
  with s1 have "run (Suc n) s = Inr ?s'"
    by (simp add: run_Suc_right del: run.simps)
  moreover from pl rc have "repeat_count ?s' = 0" "htim1_running ?s' = False"
    "IR_LED ?s' = GPIO_PIN_RESET" "pulses ?s' = pulses s" "pulses_size ?s' = pulses_size s"
    by (simp_all add: playing_def)
  ultimately show ?thesis
    unfolding Suc_n by blast
qed

lemma run_after_complete:
  assumes arm: "playing s 0 0 N s"
    and S: "S = unat (pulses_size s)" "0 < S" "S \<le> 8 * PULSES_CAPACITY"
    and N: "0 < N" and n: "43 * S * N \<le> n"
  shows "run n s = run (43 * S * N) s"
proof -
  from run_complete [OF arm S N] obtain s' where
    s': "run (43 * S * N) s = Inr s'" "htim1_running s' = False"
    by blast
  from n obtain m where "n = 43 * S * N + m"
    using le_Suc_ex by blast
  then have "run n s = bind_err (run (43 * S * N) s) (run m)"
    by (simp only: run_add)
  with s' show ?thesis
    by (simp add: run_idle)
qed

text \<open>
  The whole playback of an armed engine: cursors at zero, timer running, slot count \<open>S\<close>
  with \<open>1 \<le> S\<close> (and within the capacity of the buffer, \<open>8 * PULSES_CAPACITY\<close> slots), repeat
  count \<open>N\<close> with \<open>1 \<le> N\<close>. Every slot takes 43 ticks of the handler (42 sub-pulses and the
  tick that advances the cursor). Before tick \<open>43 * S * N\<close> the handler never fails and
  never stops: after \<open>n\<close> ticks the slot cursor is \<open>(n div 43) mod S\<close>, the sub-pulse is
  \<open>n mod 43\<close>, the repeat count is \<open>N\<close> less the number of completed passes, and the pin
  has the level of the last sub-pulse of the slot under the cursor, as read from the
  buffer. After exactly \<open>43 * S * N\<close> ticks the repeat count is 0, the timer is stopped
  and the pin has been written \<open>GPIO_PIN_RESET\<close>; nothing changes after that.
\<close>

lemma playback_completes:
  assumes "current_pulse s = 0" and "current_sub_pulse s = 0" and "htim1_running s"
    and "S = unat (pulses_size s)" and "1 \<le> S" and "S \<le> 8 * PULSES_CAPACITY"
    and "N = unat (repeat_count s)" and "1 \<le> N"
  shows "(\<forall>n < 43 * S * N. \<exists>s'. run n s = Inr s' \<and> htim1_running s' \<and>
            pulses s' = pulses s \<and>
            unat (current_pulse s') = (n div 43) mod S \<and>
            unat (current_sub_pulse s') = n mod 43 \<and>
            unat (repeat_count s') = N - (n div 43) div S \<and>
            0 < unat (repeat_count s') \<and>
            (n mod 43 \<noteq> 0 \<longrightarrow>
               IR_LED s' = window_level (pulse_at s ((n div 43) mod S)) (n mod 43 - 1))) \<and>
         (\<exists>s'. run (43 * S * N) s = Inr s' \<and> repeat_count s' = 0 \<and>
            htim1_running s' = False \<and> IR_LED s' = GPIO_PIN_RESET) \<and>
         (\<forall>n \<ge> 43 * S * N. run n s = run (43 * S * N) s)"
proof -
  from assms have arm: "playing s 0 0 N s"
    by (simp add: playing_def)
  from assms have S: "S = unat (pulses_size s)" "0 < S" "S \<le> 8 * PULSES_CAPACITY" and N: "0 < N"
    by simp_all
  have "\<exists>s'. run n s = Inr s' \<and> htim1_running s' \<and>
          pulses s' = pulses s \<and>
          unat (current_pulse s') = (n div 43) mod S \<and>
          unat (current_sub_pulse s') = n mod 43 \<and>
          unat (repeat_count s') = N - (n div 43) div S \<and>
          0 < unat (repeat_count s') \<and>
          (n mod 43 \<noteq> 0 \<longrightarrow>
             IR_LED s' = window_level (pulse_at s ((n div 43) mod S)) (n mod 43 - 1))"
    if n: "n < 43 * S * N" for n
  proof -
    from n have "n div 43 < S * N"
      by (simp add: less_mult_imp_div_less mult.assoc mult.commute)
    then have "(n div 43) div S < N"
      by (simp add: less_mult_imp_div_less mult.commute)
    then have "0 < N - (n div 43) div S"
      by simp
    with run_playing [OF arm S n] show ?thesis
      by (auto simp: playing_def)
  qed
  moreover from run_complete [OF arm S N]
  have "\<exists>s'. run (43 * S * N) s = Inr s' \<and> repeat_count s' = 0 \<and>
          htim1_running s' = False \<and> IR_LED s' = GPIO_PIN_RESET"
    by blast
  moreover have "run n s = run (43 * S * N) s" if "43 * S * N \<le> n" for n
    using run_after_complete [OF arm S N that] .
  ultimately show ?thesis
    by blast
qed

section \<open>Out-of-range inputs of the packet encoder\<close>

lemma pack_data_in_table:
  assumes "fan_level_in_table ir"
  shows "\<exists>p. pack_data ir = Inr p"
proof -
  have fan: "\<exists>f. array_read fan_table (fan_level ir) = Inr f"
    if "0 \<le> fan_level ir" "fan_level ir < 4"
    using that by (simp add: array_read_def fan_table_def)
  have tmp: "\<exists>t. array_read temperature_table (temperature ir - TEMP_LOW) = Inr t"
    if "TEMP_LOW \<le> temperature ir" "temperature ir \<le> TEMP_HIGH"
    using that by (simp add: array_read_def temperature_table_def TEMP_LOW_def TEMP_HIGH_def)
  from assms fan tmp show ?thesis
    by (cases "mode ir") (auto simp: pack_data_def fan_level_in_table_def)
qed

lemma pack_data_out_of_table:
  assumes "\<not> fan_level_in_table ir"
  shows "pack_data ir = Inl OutOfBounds"
  using assms by (auto simp: pack_data_def fan_level_in_table_def array_read_def fan_table_def)

lemma pack_data_temperature:
  assumes "pack_data ir = Inr p" and "enabled ir" and "mode ir \<noteq> MODE_FAN"
  shows "temp p = (if 17 \<le> temperature ir \<and> temperature ir \<le> 30
                   then ucast (temperature_table ! nat (temperature ir - 17)) else 0b0100)"
  using assms
  by (auto simp: pack_data_def array_read_def TEMP_LOW_def TEMP_HIGH_def bind_err_def
           split: if_splits sum.splits)

text \<open>
  C3. The encoder checks the temperature against the range 17 to 30 before it reads the
  temperature table, and falls back to \<open>0100\<close> outside it; the fan level is not checked.
  For an enabled state in cooling mode with fan level 4 the encoder reads \<^verbatim>\<open>fan_table[4]\<close>,
  one element past the end of the four-element table.
\<close>

theorem pack_data_fan_level_out_of_bounds:
  "pack_data \<lparr>temperature = 24, fan_level = 4, mode = MODE_COOL, enabled = True\<rparr>
     = Inl OutOfBounds"
  by (simp add: pack_data_def array_read_def fan_table_def)

section \<open>Public operations\<close>

lemma length_packet_bytes: "length (packet_bytes p) = 3"
  by (simp add: packet_bytes_def)

lemma deflector_frame:
  "add_complementary_bytes [0xB2, 0x0F, 0xE0] = Inr [0xB2, 0x4D, 0x0F, 0xF0, 0xE0, 0x1F]"
  by (simp add: complementary_frame)

text \<open>
  Where the fan level is inside the fan table whenever the table is read,
  \<^verbatim>\<open>midea_ir_send\<close> encodes the state, frames the three packet bytes and arms the engine
  with repeat count 2. \<^verbatim>\<open>midea_ir_move_deflector\<close> frames the three literal bytes
  \<open>0xB2, 0x0F, 0xE0\<close>, without the encoder and whatever its argument, and arms the engine
  with repeat count 1.
\<close>

lemma send_repeat_counts:
  "(fan_level_in_table ir \<longrightarrow>
      (\<exists>p frame s'. pack_data ir = Inr p \<and>
         add_complementary_bytes (packet_bytes p) = Inr frame \<and>
         midea_ir_send ir s = Inr s' \<and> send_ir_data frame 2 s = Inr s' \<and>
         repeat_count s' = 2 \<and> htim1_running s' = True)) \<and>
   add_complementary_bytes [0xB2, 0x0F, 0xE0] = Inr [0xB2, 0x4D, 0x0F, 0xF0, 0xE0, 0x1F] \<and>
   (\<exists>s'. midea_ir_move_deflector ir s = Inr s' \<and>
      send_ir_data [0xB2, 0x4D, 0x0F, 0xF0, 0xE0, 0x1F] 1 s = Inr s' \<and>
      repeat_count s' = 1 \<and> htim1_running s' = True) \<and>
   midea_ir_move_deflector ir s = midea_ir_move_deflector ir' s"
proof -
  have send: "\<exists>p frame s'. pack_data ir = Inr p \<and>
         add_complementary_bytes (packet_bytes p) = Inr frame \<and>
         midea_ir_send ir s = Inr s' \<and> send_ir_data frame 2 s = Inr s' \<and>
         repeat_count s' = 2 \<and> htim1_running s' = True" if "fan_level_in_table ir"
  proof -
    from pack_data_in_table [OF that] obtain p where p: "pack_data ir = Inr p"
      by blast
    from add_complementary_bytes_frame [OF length_packet_bytes, of p] obtain frame where
      frame: "add_complementary_bytes (packet_bytes p) = Inr frame" "length frame = 6"
      by blast
    from send_ir_data_pulse_train [OF frame(2), of 2 s] obtain s' where
      "send_ir_data frame 2 s = Inr s'" "repeat_count s' = 2" "htim1_running s' = True"
      by blast
    with p frame(1) show ?thesis
      by (simp add: midea_ir_send_def)
  qed
  have len: "length [0xB2, 0x4D, 0x0F, 0xF0, 0xE0, 0x1F :: uint8_t] = 6"
    by simp
  from send_ir_data_pulse_train [OF len, of 1 s] obtain s' where
    "send_ir_data [0xB2, 0x4D, 0x0F, 0xF0, 0xE0, 0x1F] 1 s = Inr s'"
    "repeat_count s' = 1" "htim1_running s' = True"
    by blast
  then have "\<exists>s'. midea_ir_move_deflector ir s = Inr s' \<and>
      send_ir_data [0xB2, 0x4D, 0x0F, 0xF0, 0xE0, 0x1F] 1 s = Inr s' \<and>
      repeat_count s' = 1 \<and> htim1_running s' = True"
    by (simp add: midea_ir_move_deflector_def deflector_frame)
  moreover have "midea_ir_move_deflector ir s = midea_ir_move_deflector ir' s"
    by (simp add: midea_ir_move_deflector_def)
  ultimately show ?thesis
    using send deflector_frame by blast
qed


section \<open>The pin level of a space and the idle level\<close>

lemma space_window_level:
  assumes "playing s 0 0 N s"
    and "S = unat (pulses_size s)" "0 < S" "S \<le> 8 * PULSES_CAPACITY"
    and "n < 43 * S * N" and "n mod 43 \<noteq> 0"
    and "pulse_at s ((n div 43) mod S) = False"
  shows "map_sum id IR_LED (run n s) = Inr GPIO_PIN_SET"
  using run_playing [OF assms(1-5)] assms(6,7) by (auto simp: window_level_def)

lemma div_mod_offset:
  assumes "t < (m::nat)"
  shows "(m * k + t) div m = k" and "(m * k + t) mod m = t"
  using assms by simp_all

lemma deflector_slot_count:
  "length (start_pulses @ data_pulses [0xB2, 0x4D, 0x0F, 0xF0, 0xE0, 0x1F] @ stop_pulses) = 172"
  by (simp add: length_data_pulses start_pulses_def stop_pulses_def bit_pulses_def
        frame_bits_def bits_msb_def bit_slot_count_def upt_rec)

text \<open>
  C2. During the 42 sub-pulses of a space the handler writes \<open>GPIO_PIN_SET\<close> at every
  tick, so the pin is held at one level for the whole window; but the level it forces
  when the last repeat completes is \<open>GPIO_PIN_RESET\<close>, the other one. In the transmission
  armed by \<^verbatim>\<open>midea_ir_move_deflector\<close> (172 slots, one pass), slot 8 is a space of the
  start condition: after each of the ticks \<open>43 * 8 + 1\<close> to \<open>43 * 8 + 42\<close> the pin is
  \<open>GPIO_PIN_SET\<close>, and after tick \<open>43 * 172\<close> the engine is idle with the pin at
  \<open>GPIO_PIN_RESET\<close>.
\<close>

theorem space_level_is_not_idle_level:
  "\<exists>s. midea_ir_move_deflector
          \<lparr>temperature = 24, fan_level = 0, mode = MODE_AUTO, enabled = False\<rparr> boot = Inr s \<and>
        pulse_at s 8 = False \<and>
        map (\<lambda>t. map_sum id IR_LED (run (43 * 8 + t) s)) [1..<43]
          = replicate 42 (Inr GPIO_PIN_SET) \<and>
        map_sum id IR_LED (run (43 * 172) s) = Inr GPIO_PIN_RESET \<and>
        map_sum id repeat_count (run (43 * 172) s) = Inr 0 \<and>
        GPIO_PIN_SET \<noteq> GPIO_PIN_RESET"
proof -
  let ?F = "[0xB2, 0x4D, 0x0F, 0xF0, 0xE0, 0x1F :: uint8_t]"
  have len: "length ?F = 6"
    by simp
  from send_ir_data_pulse_train [OF len, of 1 boot] obtain s where
    s: "send_ir_data ?F 1 boot = Inr s"
    and train: "pulse_train s = start_pulses @ data_pulses ?F @ stop_pulses"
    and size: "unat (pulses_size s) = 172"
    and arm: "repeat_count s = 1" "current_pulse s = 0" "current_sub_pulse s = 0"
      "htim1_running s = True"
    unfolding deflector_slot_count by blast
  from arm have pl: "playing s 0 0 1 s"
    by (simp add: playing_def)
  have S: "172 = unat (pulses_size s)" "0 < (172::nat)" "(172::nat) \<le> 8 * PULSES_CAPACITY"
    by (simp_all add: size PULSES_CAPACITY_def)
  have "pulse_train s ! 8 = pulse_at s 8"
    by (simp add: pulse_train_def size)
  then have space: "pulse_at s 8 = False"
    by (simp add: train start_pulses_def nth_append)
  have "map_sum id IR_LED (run (43 * 8 + t) s) = Inr GPIO_PIN_SET" if "t \<in> set [1..<43]" for t
  proof -
    from that have t: "1 \<le> t" "t < 43"
      by simp_all
    then have "(43 * 8 + t) div 43 = 8" "(43 * 8 + t) mod 43 = t"
      using div_mod_offset [of t 43 8] by simp_all
    with t space show ?thesis
      by (intro space_window_level [OF pl S]) simp_all
  qed
  then have "map (\<lambda>t. map_sum id IR_LED (run (43 * 8 + t) s)) [1..<43]
      = map (\<lambda>t. Inr GPIO_PIN_SET) [1..<43]"
    by (intro map_cong refl)
  then have window: "map (\<lambda>t. map_sum id IR_LED (run (43 * 8 + t) s)) [1..<43]
      = replicate 42 (Inr GPIO_PIN_SET)"
    by (simp only: map_replicate_const length_upt) simp
  from run_complete [OF pl S] obtain s' where
    "run (43 * 172 * 1) s = Inr s'" "repeat_count s' = 0" "IR_LED s' = GPIO_PIN_RESET"
    by auto
  then have "map_sum id IR_LED (run (43 * 172) s) = Inr GPIO_PIN_RESET"
    "map_sum id repeat_count (run (43 * 172) s) = Inr 0"
    by simp_all
  with s space window show ?thesis
    by (simp add: midea_ir_move_deflector_def deflector_frame)
qed











section \<open>The stop marker\<close>

lemma deflector_spec_slot_count:
  "spec_slot_count [0xB2, 0x4D, 0x0F, 0xF0, 0xE0, 0x1F] = 169"
  by (simp add: spec_slot_count_def frame_bits_def bits_msb_def bit_slot_count_def upt_rec)

text \<open>
  C1. For the frame \<open>B2 4D 0F F0 E0 1F\<close>, which \<^verbatim>\<open>add_complementary_bytes\<close> builds from the
  deflector command, the builder records 172 slots: 16 start slots, 144 slots for the
  data bits and 12 stop slots, since \<^verbatim>\<open>add_stop\<close> sends its mark with \<^verbatim>\<open>add_bit(true)\<close>,
  four slots, before the eight trailing spaces. The formula with 9 stop slots gives 169.
\<close>

theorem stop_marker_slot_count:
  "add_complementary_bytes [0xB2, 0x0F, 0xE0] = Inr [0xB2, 0x4D, 0x0F, 0xF0, 0xE0, 0x1F] \<and>
   map_sum id (unat \<circ> pulses_size) (send_ir_data [0xB2, 0x4D, 0x0F, 0xF0, 0xE0, 0x1F] 1 boot)
     = Inr 172 \<and>
   spec_slot_count [0xB2, 0x4D, 0x0F, 0xF0, 0xE0, 0x1F] = 169"
proof -
  have len: "length [0xB2, 0x4D, 0x0F, 0xF0, 0xE0, 0x1F :: uint8_t] = 6"
    by simp
  from send_ir_data_pulse_train [OF len, of 1 boot] obtain s' where
    "send_ir_data [0xB2, 0x4D, 0x0F, 0xF0, 0xE0, 0x1F] 1 boot = Inr s'"
    "unat (pulses_size s') = 172"
    unfolding deflector_slot_count by blast
  then have "map_sum id (unat \<circ> pulses_size)
      (send_ir_data [0xB2, 0x4D, 0x0F, 0xF0, 0xE0, 0x1F] 1 boot) = Inr 172"
    by simp
  with deflector_frame deflector_spec_slot_count show ?thesis
    by blast
qed

end
